theory Spec2Isabelle
  imports Main "HOL-Library.Sublist"
begin

section \<open>HTTP requests, responses and the bearer-token middleware (package httpapi)\<close>

text \<open>
  A request body is an \<^verbatim>\<open>io.ReadCloser\<close>: a stream that delivers its pending bytes and
  then ends, either with EOF or with a read error (a connection cut before the declared
  length arrived). Bytes that have been read are gone from the stream.
\<close>

record reader =
  pending :: string
  broken :: bool

text \<open>
  \<^verbatim>\<open>io.ReadAll\<close> drains the stream. It returns the bytes it got, whether the read ended
  in an error, and leaves the stream with nothing pending.
\<close>

definition ReadAll :: "reader \<Rightarrow> string \<times> bool \<times> reader" where
  "ReadAll rd = (pending rd, broken rd, rd\<lparr>pending := []\<rparr>)"

text \<open>\<^verbatim>\<open>io.NopCloser(bytes.NewBuffer(body))\<close>: a fresh stream over a byte slice.\<close>

definition NewBuffer :: "string \<Rightarrow> reader" where
  "NewBuffer b = \<lparr>pending = b, broken = False\<rparr>"

text \<open>
  The fields of \<^verbatim>\<open>http.Request\<close> the middleware reads. \<^verbatim>\<open>http.Header\<close> is a
  \<^verbatim>\<open>map[string][]string\<close>; \<^verbatim>\<open>Header.Get\<close> returns the first value stored under the
  key and the empty string when there is none.
\<close>

record request =
  Method :: string
  Path :: string
  Header :: "string \<rightharpoonup> string list"
  Body :: reader

definition Header_Get :: "(string \<rightharpoonup> string list) \<Rightarrow> string \<Rightarrow> string" where
  "Header_Get h k = (case h k of None \<Rightarrow> [] | Some [] \<Rightarrow> [] | Some (v # _) \<Rightarrow> v)"

record response =
  status :: nat
  resp_header :: "(string \<times> string) list"
  resp_body :: string

text \<open>
  \<^verbatim>\<open>http.Error(w, msg, code)\<close> after the headers \<open>hs\<close> were set on \<^verbatim>\<open>w\<close>: the status
  code, the headers the middleware set itself, and the message followed by a newline.
\<close>

definition http_Error :: "(string \<times> string) list \<Rightarrow> string \<Rightarrow> nat \<Rightarrow> response" where
  "http_Error hs msg code = \<lparr>status = code, resp_header = hs, resp_body = msg @ [CHR 0x0A]\<rparr>"

definition StatusUnauthorized :: nat where
  "StatusUnauthorized = 401"

text \<open>\<^verbatim>\<open>strings.HasPrefix(s, prefix)\<close>.\<close>

definition HasPrefix :: "string \<Rightarrow> string \<Rightarrow> bool" where
  "HasPrefix s p = (length p \<le> length s \<and> take (length p) s = p)"

text \<open>
  \<^verbatim>\<open>json.Unmarshal(body, &msg)\<close> with \<^verbatim>\<open>msg struct { Type string `json:"type"` }\<close> belongs
  to the Go standard library, so it is a parameter of the model: a decoder maps the body
  bytes to \<open>None\<close> when \<^verbatim>\<open>Unmarshal\<close> returns an error and to \<open>Some t\<close> when it succeeds
  and leaves \<^verbatim>\<open>msg.Type = t\<close>.
\<close>

type_synonym unmarshal = "string \<Rightarrow> string option"

text \<open>
  \<^verbatim>\<open>isRawMessage\<close> reads the whole body, returns \<^verbatim>\<open>false\<close> at once on a read error,
  otherwise replaces \<^verbatim>\<open>r.Body\<close> by a fresh buffer over the bytes read and decodes them.
  The request is mutated, so the model returns it with the answer.
\<close>

definition isRawMessage :: "unmarshal \<Rightarrow> request \<Rightarrow> bool \<times> request" where
  "isRawMessage dec r =
     (case ReadAll (Body r) of
        (body, err, rd) \<Rightarrow>
          if err then (False, r\<lparr>Body := rd\<rparr>)
          else let r' = r\<lparr>Body := NewBuffer body\<rparr>
               in (case dec body of
                     None \<Rightarrow> (False, r')
                   | Some t \<Rightarrow> (t = ''raw'', r')))"

text \<open>
  The body of the handler that \<^verbatim>\<open>AuthMiddleware(token)(next)\<close> returns, with the call
  \<^verbatim>\<open>next.ServeHTTP(w, r)\<close> reified as \<open>Forward r\<close> (the request as the inner handler gets
  it) and each \<^verbatim>\<open>http.Error\<close> followed by \<^verbatim>\<open>return\<close> as \<open>Deny\<close>.
\<close>

datatype decision = Forward request | Deny response

definition auth_gate :: "unmarshal \<Rightarrow> string \<Rightarrow> request \<Rightarrow> decision" where
  "auth_gate dec token r =
     (if Path r = ''/health'' \<or> HasPrefix (Path r) ''/internal/'' then Forward r
      else
        let (raw, r1) = (if Path r = ''/message'' \<and> Method r = ''POST''
                         then isRawMessage dec r else (False, r))
        in if raw then Forward r1
           else
             let auth = Header_Get (Header r1) ''Authorization''
             in if auth = [] then
                  Deny (http_Error [(''WWW-Authenticate'', ''Bearer'')]
                          ''Authorization required'' StatusUnauthorized)
                else if \<not> HasPrefix auth ''Bearer '' then
                  Deny (http_Error [] ''Invalid authorization format'' StatusUnauthorized)
                else if drop (length ''Bearer '') auth \<noteq> token then
                  Deny (http_Error [] ''Invalid token'' StatusUnauthorized)
                else Forward r1)"

definition AuthMiddleware ::
  "unmarshal \<Rightarrow> string \<Rightarrow> (request \<Rightarrow> response) \<Rightarrow> request \<Rightarrow> response" where
  "AuthMiddleware dec token next r =
     (case auth_gate dec token r of Forward r' \<Rightarrow> next r' | Deny resp \<Rightarrow> resp)"

text \<open>
  The requests that the middleware passes on before it looks at the Authorization header:
  the two early \<^verbatim>\<open>if\<close> blocks of the handler.
\<close>

definition skips_auth :: "unmarshal \<Rightarrow> request \<Rightarrow> bool" where
  "skips_auth dec r =
     (Path r = ''/health'' \<or> HasPrefix (Path r) ''/internal/''
      \<or> (Path r = ''/message'' \<and> Method r = ''POST'' \<and> fst (isRawMessage dec r)))"

text \<open>The request as it is once the raw-type check has run (or has not).\<close>

definition after_raw_check :: "unmarshal \<Rightarrow> request \<Rightarrow> request" where
  "after_raw_check dec r =
     (if Path r = ''/message'' \<and> Method r = ''POST'' then snd (isRawMessage dec r) else r)"

text \<open>
  What \<^verbatim>\<open>json.Unmarshal\<close> answers on the bodies of the examples in this theory: a
  message of type raw, a message of type user and the empty object decode; the empty and
  the truncated body do not. The table stands for the decoder on these bodies only.
\<close>

definition example_unmarshal :: unmarshal where
  "example_unmarshal b =
     (if b = ''{'' @ [CHR 0x22] @ ''type'' @ [CHR 0x22] @ '':''
               @ [CHR 0x22] @ ''raw'' @ [CHR 0x22] @ ''}'' then Some ''raw''
      else if b = ''{'' @ [CHR 0x22] @ ''type'' @ [CHR 0x22] @ '':''
               @ [CHR 0x22] @ ''user'' @ [CHR 0x22] @ ''}'' then Some ''user''
      else if b = ''{}'' then Some []
      else None)"

section \<open>Agent status and the status endpoint\<close>

datatype AgentStatus = initializing | stable | changing | terminated

definition status_name :: "AgentStatus \<Rightarrow> string" where
  "status_name s =
     (case s of initializing \<Rightarrow> ''initializing'' | stable \<Rightarrow> ''stable''
      | changing \<Rightarrow> ''changing'' | terminated \<Rightarrow> ''terminated'')"

definition StatusOK :: nat where
  "StatusOK = 200"

text \<open>
  Modelled from the spec: the handler of \<^verbatim>\<open>GET /status\<close> lives in lib/httpapi's server,
  which is not among the sources. Spec 4.6 and 6: it answers 200 with the small JSON
  object \<^verbatim>\<open>{"status":"<status>"}\<close> for the current status, whatever the request.
\<close>

definition statusHandler :: "AgentStatus \<Rightarrow> request \<Rightarrow> response" where
  "statusHandler st r =
     \<lparr>status = StatusOK,
      resp_header = [(''Content-Type'', ''application/json'')],
      resp_body = ''{'' @ [CHR 0x22] @ ''status'' @ [CHR 0x22] @ '':''
                  @ [CHR 0x22] @ status_name st @ [CHR 0x22] @ ''}''\<rparr>"

section \<open>Screen Tracker\<close>

text \<open>
  Modelled from the spec: lib/screentracker is not among the sources. Spec 3 and 4.3: a
  sample is (timestamp, screen text, cursor row, cursor column); the history is a bounded
  ring of the most recent samples; the operating parameters are the sampling period, the
  stability window, the startup quiet window and the margin of the ring.
\<close>

record Sample =
  timestamp :: nat
  screen_text :: string
  cursor_row :: nat
  cursor_col :: nat

record TrackerConfig =
  sampling_period :: nat
  stability_window :: nat
  startup_quiet :: nat
  ring_margin :: nat

text \<open>
  Modelled from the spec: N, the number of samples that cover the stability window (the
  tracker's code is not among the sources), is ceil(stability window / sampling period):
  250 ms at 25 ms are 10 samples.
\<close>

definition window_samples :: "TrackerConfig \<Rightarrow> nat" where
  "window_samples cfg =
     (stability_window cfg + sampling_period cfg - 1) div sampling_period cfg"

text \<open>Modelled from the spec: the snapshot ring capacity of 4.3 (the tracker's code is
  not among the sources).\<close>

definition ring_capacity :: "TrackerConfig \<Rightarrow> nat" where
  "ring_capacity cfg = window_samples cfg + ring_margin cfg"

text \<open>Modelled from the spec: the tracker's state (lib/screentracker is not among the
  sources): the process start time, the SampleHistory with the newest sample first, and
  the one current AgentStatus.\<close>

record Tracker =
  started :: nat
  history :: "Sample list"
  tstatus :: AgentStatus

text \<open>Modelled from the spec: the stability predicate of 4.3 on the samples of the
  window, "all snapshot texts are byte-equal"; the tracker's code is not among the sources.
  The empty window and a single sample are equal.\<close>

definition texts_equal :: "Sample list \<Rightarrow> bool" where
  "texts_equal ss =
     (case ss of [] \<Rightarrow> True
      | s # rest \<Rightarrow> list_all (\<lambda>x. screen_text x = screen_text s) rest)"

text \<open>
  Modelled from the spec: the classification algorithm of 4.3 (the tracker's code is not
  among the sources). A child that has exited
  gives \<open>terminated\<close> (step 3, final); otherwise a tick inside the startup quiet window
  gives \<open>initializing\<close> regardless of stability (step 1); otherwise the status is
  \<open>stable\<close> when the ring holds the N samples of the window and their texts are all
  equal, and \<open>changing\<close> if not (step 2; a ring that has not refilled is \<open>changing\<close>).
  Only the text is compared, never the cursor.
\<close>

definition classify :: "TrackerConfig \<Rightarrow> nat \<Rightarrow> Sample list \<Rightarrow> bool \<Rightarrow> AgentStatus" where
  "classify cfg elapsed hist exited =
     (if exited then terminated
      else if elapsed < startup_quiet cfg then initializing
      else if window_samples cfg \<le> length hist
              \<and> texts_equal (take (window_samples cfg) hist) then stable
      else changing)"

text \<open>
  Modelled from the spec: one tick of the tracker (its code is not among the sources) at
  time \<open>now\<close>, with the emulator's snapshot (text, cursor row, cursor column) and
  whether the child has exited. A terminated tracker stays as it is (terminated is
  terminal); otherwise the sample enters the ring, the oldest samples beyond the capacity
  are dropped, and the status is classified anew.
\<close>

definition tick :: "TrackerConfig \<Rightarrow> Tracker \<Rightarrow> nat \<times> (string \<times> nat \<times> nat) \<times> bool \<Rightarrow> Tracker" where
  "tick cfg tr inp =
     (case inp of
        (now, (scr, row, col), exited) \<Rightarrow>
          if tstatus tr = terminated then tr
          else
            let hist = take (ring_capacity cfg)
                         (\<lparr>timestamp = now, screen_text = scr,
                           cursor_row = row, cursor_col = col\<rparr> # history tr)
            in tr\<lparr>history := hist,
                  tstatus := classify cfg (now - started tr) hist exited\<rparr>)"

text \<open>Modelled from the spec: a sequence of ticks, one after the other (the ticker
  task of 5; its code is not among the sources).\<close>

definition ticks :: "TrackerConfig \<Rightarrow> Tracker \<Rightarrow> (nat \<times> (string \<times> nat \<times> nat) \<times> bool) list \<Rightarrow> Tracker" where
  "ticks cfg tr inps = foldl (tick cfg) tr inps"

section \<open>Message Segmenter\<close>

text \<open>
  Modelled from the spec: the segmenter (lib/screentracker, lib/httpapi) is not among the
  sources. Spec 3 and 4.4: a message is (id, role, content, time); the segmenter keeps an
  ordered list of sealed messages and, optionally, one open tail message. Ids are opaque;
  the model draws them from a counter, so an id is fresh when it is drawn.
\<close>

datatype Role = User | Agent | Raw

record Message =
  msg_id :: nat
  role :: Role
  content :: string
  msg_time :: nat

record Segmenter =
  sealed :: "Message list"
  tail :: "Message option"
  next_id :: nat

text \<open>Modelled from the spec: the segmenter at process start (its code is not among the
  sources): no message, no open tail.\<close>

definition Segmenter_init :: Segmenter where
  "Segmenter_init = \<lparr>sealed = [], tail = None, next_id = 0\<rparr>"

text \<open>Modelled from the spec: the transcript that \<^verbatim>\<open>GET /messages\<close> returns (the
  handler is not among the sources): the sealed messages, then the open tail if any.\<close>

definition transcript :: "Segmenter \<Rightarrow> Message list" where
  "transcript s = sealed s @ (case tail s of None \<Rightarrow> [] | Some m \<Rightarrow> [m])"

text \<open>Modelled from the spec: the type of a submitted message (the handler of
  \<^verbatim>\<open>POST /message\<close> is not among the sources); 4.6 accepts user and raw.\<close>

datatype MessageType = TypeUser | TypeRaw

text \<open>
  Modelled from the spec: a submission to the segmenter (4.4 and 4.6; its code is not
  among the sources). A user submission seals any open agent tail and
  appends a user message at once, with the submitted content and a fresh id; a raw
  submission only writes bytes to the PTY and leaves the transcript alone.
\<close>

definition submit :: "Segmenter \<Rightarrow> MessageType \<Rightarrow> string \<Rightarrow> nat \<Rightarrow> Segmenter" where
  "submit s ty c t =
     (case ty of
        TypeRaw \<Rightarrow> s
      | TypeUser \<Rightarrow>
          \<lparr>sealed = transcript s
                     @ [\<lparr>msg_id = next_id s, role = User, content = c, msg_time = t\<rparr>],
           tail = None,
           next_id = Suc (next_id s)\<rparr>)"

text \<open>
  Modelled from the spec: a \<open>stable\<close> event with snapshot \<open>snap\<close> at the segmenter
  (4.4; its code is not among the sources). The Agent Formatter
  \<open>fmt\<close> (a parameter) extracts the reply; an open agent tail gets the new text as its
  content and keeps everything else; with no open tail a new agent message with a fresh
  id becomes the open tail.
\<close>

definition on_stable :: "(string \<Rightarrow> string) \<Rightarrow> Segmenter \<Rightarrow> string \<Rightarrow> nat \<Rightarrow> Segmenter" where
  "on_stable fmt s snap t =
     (case tail s of
        Some m \<Rightarrow> s\<lparr>tail := Some (m\<lparr>content := fmt snap\<rparr>)\<rparr>
      | None \<Rightarrow>
          s\<lparr>tail := Some \<lparr>msg_id = next_id s, role = Agent, content = fmt snap, msg_time = t\<rparr>,
            next_id := Suc (next_id s)\<rparr>)"

text \<open>Modelled from the spec: the two kinds of event that reach the segmenter (4.4; its
  code is not among the sources), a submission and a stable snapshot, each with its time,
  and the segmenter run over a sequence of them.\<close>

datatype seg_event = Submission MessageType string nat | StableSnapshot string nat

fun seg_step :: "(string \<Rightarrow> string) \<Rightarrow> Segmenter \<Rightarrow> seg_event \<Rightarrow> Segmenter" where
  "seg_step fmt s (Submission ty c t) = submit s ty c t"
| "seg_step fmt s (StableSnapshot snap t) = on_stable fmt s snap t"

definition seg_run :: "(string \<Rightarrow> string) \<Rightarrow> Segmenter \<Rightarrow> seg_event list \<Rightarrow> Segmenter" where
  "seg_run fmt s evs = foldl (seg_step fmt) s evs"

text \<open>The contents of the user submissions among the events, in the order submitted.\<close>

fun user_submissions :: "seg_event list \<Rightarrow> string list" where
  "user_submissions [] = []"
| "user_submissions (Submission TypeUser c t # evs) = c # user_submissions evs"
| "user_submissions (_ # evs) = user_submissions evs"

text \<open>An event begins a new turn when it is a user submission or a stable snapshot
  that finds no open agent tail.\<close>

fun begins_turn :: "Segmenter \<Rightarrow> seg_event \<Rightarrow> bool" where
  "begins_turn s (Submission ty c t) = (ty = TypeUser)"
| "begins_turn s (StableSnapshot snap t) = (tail s = None)"

text \<open>The invariant of the segmenter: every id in the transcript was drawn from the
  counter before, and an open tail is an agent message.\<close>

definition seg_inv :: "Segmenter \<Rightarrow> bool" where
  "seg_inv s = ((\<forall>m\<in>set (transcript s). msg_id m < next_id s)
               \<and> (case tail s of None \<Rightarrow> True | Some m \<Rightarrow> role m = Agent))"

section \<open>The quickstart command (cmd/quickstart)\<close>

text \<open>
  \<^verbatim>\<open>runQuickstart\<close> is a sequence of effects on the main goroutine. The model records
  them as a trace, in program order; what the environment answers at each fallible step is
  an input. \<open>GoServerStart\<close> is the statement \<^verbatim>\<open>go func() { server.Start() ... }()\<close>,
  \<open>CancelCtx\<close> a call of \<^verbatim>\<open>cancel()\<close> for the context that was given to the server and to
  \<^verbatim>\<open>StartSnapshotLoop\<close>, \<open>ProcessClose\<close> the call \<^verbatim>\<open>claudeProcess.Close\<close> that closes the
  PTY, and \<open>OsExit\<close> is \<^verbatim>\<open>os.Exit(1)\<close>, which runs no deferred call.
\<close>

datatype action =
    GenerateSession
  | LookPath
  | StartProcess
  | SleepClaudeInit
  | NewServerWithAuth
  | GoServerStart
  | SleepServerStart
  | CheckAvailableProviders
  | EstablishTunnel
  | RegisterWithCoordinator
  | DisplayConnectionInfo
  | StartSnapshotLoop
  | AwaitInterrupt
  | ServerStop
  | CancelCtx
  | ProcessClose
  | OsExit

record outcomes =
  claude_in_path :: bool
  process_started :: bool
  providers_found :: bool
  tunnel_established :: bool
  registration_ok :: bool

text \<open>\<^verbatim>\<open>startClaudeCode\<close>: the trace and whether a process came back.\<close>

definition startClaudeCode :: "outcomes \<Rightarrow> action list \<times> bool" where
  "startClaudeCode env =
     (if \<not> claude_in_path env then ([LookPath], False)
      else if \<not> process_started env then ([LookPath, StartProcess], False)
      else ([LookPath, StartProcess, SleepClaudeInit], True))"

text \<open>\<^verbatim>\<open>waitForInterrupt\<close>: wait for a signal or the end of the context, stop the server,
  cancel the context.\<close>

definition waitForInterrupt :: "action list" where
  "waitForInterrupt = [AwaitInterrupt, ServerStop, CancelCtx]"

text \<open>
  \<^verbatim>\<open>runQuickstart\<close>. The two deferred calls run at the return, last registered first:
  \<^verbatim>\<open>claudeProcess.Close\<close>, then \<^verbatim>\<open>cancel\<close>.
\<close>

definition runQuickstart :: "outcomes \<Rightarrow> action list" where
  "runQuickstart env =
     [GenerateSession] @
     (case startClaudeCode env of
        (started_trace, ok) \<Rightarrow>
          started_trace @
          (if \<not> ok then [OsExit]
           else
             [NewServerWithAuth, GoServerStart, SleepServerStart, CheckAvailableProviders] @
             (if \<not> providers_found env then [OsExit]
              else
                [EstablishTunnel] @
                (if \<not> tunnel_established env then [OsExit]
                 else
                   [RegisterWithCoordinator] @
                   (if \<not> registration_ok env then [OsExit]
                    else
                      [DisplayConnectionInfo, StartSnapshotLoop] @ waitForInterrupt @
                      [ProcessClose, CancelCtx])))))"

text \<open>\<open>guarded_by a b tr\<close>: in the trace, no \<open>b\<close> happens before the first \<open>a\<close>.\<close>

fun guarded_by :: "action \<Rightarrow> action \<Rightarrow> action list \<Rightarrow> bool" where
  "guarded_by a b [] = True"
| "guarded_by a b (x # xs) =
     (if x = a then True else if x = b then False else guarded_by a b xs)"

definition all_succeed :: outcomes where
  "all_succeed =
     \<lparr>claude_in_path = True, process_started = True, providers_found = True,
      tunnel_established = True, registration_ok = True\<rparr>"

section \<open>The coordinator client (lib/coordinator)\<close>

text \<open>The process environment; \<^verbatim>\<open>os.Getenv\<close> answers the empty string for an unset
  variable.\<close>

type_synonym environ = "string \<rightharpoonup> string"

definition Getenv :: "environ \<Rightarrow> string \<Rightarrow> string" where
  "Getenv env k = (case env k of None \<Rightarrow> [] | Some v \<Rightarrow> v)"

definition DefaultCoordinatorURL :: string where
  "DefaultCoordinatorURL = ''https://coordinator.claudecode.app''"

definition getCoordinatorURL :: "environ \<Rightarrow> string" where
  "getCoordinatorURL env =
     (let url = Getenv env ''COORDINATOR_URL''
      in if url \<noteq> [] then url else DefaultCoordinatorURL)"






text \<open>\<^verbatim>\<open>getEnvAny\<close> of the transport: the first of the named variables that has a
  non-empty value, or the empty string.\<close>

fun getEnvAny :: "environ \<Rightarrow> string list \<Rightarrow> string" where
  "getEnvAny env [] = []"
| "getEnvAny env (n # ns) = (if Getenv env n \<noteq> [] then Getenv env n else getEnvAny env ns)"










section \<open>Passcodes: generation (cmd/quickstart) and validation (coordinator worker)\<close>

definition passcodeChars :: string where
  "passcodeChars = ''ABCDEFGHJKLMNPQRSTUVWXYZ23456789''"

datatype panic = RandomFailure | IndexOutOfRange

text \<open>
  \<^verbatim>\<open>crypto/rand\<close> is the source of randomness: a list of the raw draws still to come.
  \<^verbatim>\<open>rand.Int(rand.Reader, max)\<close> answers a value below \<^verbatim>\<open>max\<close>, or an error when the
  source fails (here: is exhausted); \<^verbatim>\<open>randInt\<close> panics on the error. \<^verbatim>\<open>rand.Int\<close>
  itself panics when \<^verbatim>\<open>max\<close> is not positive.
\<close>

definition randInt :: "nat \<Rightarrow> nat list \<Rightarrow> panic + nat \<times> nat list" where
  "randInt max_n src =
     (if max_n = 0 then Inl RandomFailure
      else case src of [] \<Rightarrow> Inl RandomFailure
           | e # rest \<Rightarrow> Inr (e mod max_n, rest))"

text \<open>The loop of \<^verbatim>\<open>generatePasscode\<close> over the remaining positions; indexing the
  string is checked, as Go checks it.\<close>

fun fill_passcode :: "nat \<Rightarrow> nat list \<Rightarrow> panic + string \<times> nat list" where
  "fill_passcode 0 src = Inr ([], src)"
| "fill_passcode (Suc n) src =
     (case randInt (length passcodeChars) src of
        Inl p \<Rightarrow> Inl p
      | Inr (k, src') \<Rightarrow>
          if k < length passcodeChars then
            (case fill_passcode n src' of
               Inl p \<Rightarrow> Inl p
             | Inr (cs, src'') \<Rightarrow> Inr (passcodeChars ! k # cs, src''))
          else Inl IndexOutOfRange)"

definition generatePasscode :: "nat list \<Rightarrow> panic + string \<times> nat list" where
  "generatePasscode src = fill_passcode 6 src"

text \<open>
  The worker's check of \<^verbatim>\<open>POST /register\<close>: the three fields must be present and
  non-empty, and the passcode must match
  \<^verbatim>\<open>/^[ABCDEFGHJKLMNPQRSTUVWXYZ23456789]{6}$/\<close>: six characters, each of the class.
\<close>

definition passcodeRegex_test :: "string \<Rightarrow> bool" where
  "passcodeRegex_test s =
     (length s = 6 \<and> list_all (\<lambda>c. c \<in> set ''ABCDEFGHJKLMNPQRSTUVWXYZ23456789'') s)"

datatype register_result = MissingFields | InvalidFormat | Registered

definition register_check :: "string \<Rightarrow> string \<Rightarrow> string \<Rightarrow> register_result" where
  "register_check passcode tunnel_url token =
     (if passcode = [] \<or> tunnel_url = [] \<or> token = [] then MissingFields
      else if \<not> passcodeRegex_test passcode then InvalidFormat
      else Registered)"

section \<open>Properties of the authentication middleware\<close>

subsection \<open>Prefixes, the bearer header and the raw-type check\<close>

lemma HasPrefix_append: "HasPrefix s p \<longleftrightarrow> (\<exists>t. s = p @ t)"
proof
  assume "HasPrefix s p"
  then have "s = p @ drop (length p) s"
    unfolding HasPrefix_def by (metis append_take_drop_id)
  then show "\<exists>t. s = p @ t" ..
next
  assume "\<exists>t. s = p @ t"
  then show "HasPrefix s p" unfolding HasPrefix_def by auto
qed

lemma bearer_iff:
  "(a \<noteq> [] \<and> HasPrefix a ''Bearer '' \<and> drop (length ''Bearer '') a = token) \<longleftrightarrow> a = ''Bearer '' @ token"
proof
  assume h: "a \<noteq> [] \<and> HasPrefix a ''Bearer '' \<and> drop (length ''Bearer '') a = token"
  then obtain t where t: "a = ''Bearer '' @ t" unfolding HasPrefix_append by blast
  with h show "a = ''Bearer '' @ token" by simp
next
  assume "a = ''Bearer '' @ token"
  then show "a \<noteq> [] \<and> HasPrefix a ''Bearer '' \<and> drop (length ''Bearer '') a = token"
    unfolding HasPrefix_append by simp
qed

lemma isRawMessage_Header: "Header (snd (isRawMessage dec r)) = Header r"
  by (simp add: isRawMessage_def ReadAll_def Let_def split: option.splits)

lemma isRawMessage_fst:
  "fst (isRawMessage dec r) \<longleftrightarrow> \<not> broken (Body r) \<and> dec (pending (Body r)) = Some ''raw''"
  by (simp add: isRawMessage_def ReadAll_def Let_def split: option.splits)

lemma isRawMessage_intact:
  "\<not> broken (Body r) \<Longrightarrow> snd (isRawMessage dec r) = r"
  by (simp add: isRawMessage_def ReadAll_def NewBuffer_def Let_def split: option.splits)

lemma auth_gate_skip:
  assumes "skips_auth dec r"
  shows "auth_gate dec token r = Forward (after_raw_check dec r)"
proof (cases "Path r = ''/health'' \<or> HasPrefix (Path r) ''/internal/''")
  case True
  then have "Path r \<noteq> ''/message''" by (auto simp: HasPrefix_def)
  with True show ?thesis by (simp add: auth_gate_def after_raw_check_def)
next
  case False
  with assms have "Path r = ''/message'' \<and> Method r = ''POST'' \<and> fst (isRawMessage dec r)"
    by (simp add: skips_auth_def)
  with False show ?thesis
    by (simp add: auth_gate_def after_raw_check_def split_beta)
qed

lemma after_raw_check_intact: "\<not> broken (Body r) \<Longrightarrow> after_raw_check dec r = r"
  by (simp add: after_raw_check_def isRawMessage_intact)

lemma auth_gate_checked:
  assumes "\<not> skips_auth dec r"
  shows "auth_gate dec token r =
           (let auth = Header_Get (Header r) ''Authorization''
            in if auth = [] then
                  Deny (http_Error [(''WWW-Authenticate'', ''Bearer'')]
                          ''Authorization required'' StatusUnauthorized)
                else if \<not> HasPrefix auth ''Bearer '' then
                  Deny (http_Error [] ''Invalid authorization format'' StatusUnauthorized)
                else if drop (length ''Bearer '') auth \<noteq> token then
                  Deny (http_Error [] ''Invalid token'' StatusUnauthorized)
                else Forward (after_raw_check dec r))"
  using assms
  by (auto simp: skips_auth_def auth_gate_def after_raw_check_def Let_def split_beta isRawMessage_Header)

lemma auth_gate_bearer:
  assumes "\<not> skips_auth dec r" "Header_Get (Header r) ''Authorization'' = ''Bearer '' @ token"
  shows "auth_gate dec token r = Forward (after_raw_check dec r)"
proof -
  let ?a = "Header_Get (Header r) ''Authorization''"
  from assms(2) have "?a \<noteq> [] \<and> HasPrefix ?a ''Bearer '' \<and> drop (length ''Bearer '') ?a = token"
    using bearer_iff[of ?a token] by blast
  then show ?thesis
    unfolding auth_gate_checked[OF assms(1)] Let_def by presburger
qed

lemma auth_gate_denied:
  assumes "\<not> skips_auth dec r" "Header_Get (Header r) ''Authorization'' \<noteq> ''Bearer '' @ token"
  shows "\<exists>resp. auth_gate dec token r = Deny resp \<and> status resp = 401"
proof -
  let ?a = "Header_Get (Header r) ''Authorization''"
  from assms(2) have "\<not> (?a \<noteq> [] \<and> HasPrefix ?a ''Bearer '' \<and> drop (length ''Bearer '') ?a = token)"
    using bearer_iff[of ?a token] by blast
  then show ?thesis
    unfolding auth_gate_checked[OF assms(1)] Let_def
    by (auto simp: http_Error_def StatusUnauthorized_def)
qed

lemma status_not_skipped: "Path r = ''/status'' \<Longrightarrow> \<not> skips_auth dec r"
  by (simp add: skips_auth_def HasPrefix_def)

subsection \<open>Which requests reach the inner handler\<close>

text \<open>
  Claim C1 says that a request is forwarded without a token check when its path is
  \<^verbatim>\<open>/health\<close> or it is a \<^verbatim>\<open>POST /message\<close> of type raw, and that every other request is
  forwarded exactly when its Authorization header is \<^verbatim>\<open>Bearer \<close> followed by the token.
  The handler has a third exemption, the paths under \<^verbatim>\<open>/internal/\<close>: a \<^verbatim>\<open>GET\<close> of
  \<^verbatim>\<open>/internal/state\<close> with no Authorization header at all is neither of the two kinds the
  claim exempts, has no bearer header, and is forwarded.
\<close>

theorem internal_path_forwarded_without_token_counterexample:
  "Path \<lparr>Method = ''GET'', Path = ''/internal/state'', Header = Map.empty,
         Body = NewBuffer []\<rparr> \<noteq> ''/health''
   \<and> Path \<lparr>Method = ''GET'', Path = ''/internal/state'', Header = Map.empty,
           Body = NewBuffer []\<rparr> \<noteq> ''/message''
   \<and> Header_Get (Header \<lparr>Method = ''GET'', Path = ''/internal/state'', Header = Map.empty,
                          Body = NewBuffer []\<rparr>) ''Authorization'' \<noteq> ''Bearer '' @ ''secret''
   \<and> auth_gate example_unmarshal ''secret''
        \<lparr>Method = ''GET'', Path = ''/internal/state'', Header = Map.empty, Body = NewBuffer []\<rparr>
      = Forward \<lparr>Method = ''GET'', Path = ''/internal/state'', Header = Map.empty,
                 Body = NewBuffer []\<rparr>"
  by (simp add: auth_gate_def HasPrefix_def Header_Get_def)

text \<open>
  Claim C1, amended by the third exemption: a request whose path is \<^verbatim>\<open>/health\<close>, or
  begins with \<^verbatim>\<open>/internal/\<close>, or that is a \<^verbatim>\<open>POST /message\<close> which \<^verbatim>\<open>isRawMessage\<close>
  classifies as raw, is forwarded whatever its Authorization header and whatever the
  token. Every other request is forwarded if and only if its Authorization header equals
  \<^verbatim>\<open>Bearer \<close> followed by the configured token; otherwise the middleware answers 401 and
  the answer does not depend on the inner handler, which is never called. What is
  forwarded is the request as the raw-type check left it, which is the request itself
  whenever its body could be read.
\<close>

theorem auth_gate_exempt_or_bearer:
  "(skips_auth dec r \<longrightarrow> auth_gate dec token r = Forward (after_raw_check dec r))
   \<and> (\<not> skips_auth dec r \<longrightarrow>
        (if Header_Get (Header r) ''Authorization'' = ''Bearer '' @ token
         then auth_gate dec token r = Forward (after_raw_check dec r)
         else \<exists>resp. auth_gate dec token r = Deny resp \<and> status resp = 401
                \<and> (\<forall>next. AuthMiddleware dec token next r = resp)))
   \<and> (\<not> broken (Body r) \<longrightarrow> after_raw_check dec r = r)"
proof (intro conjI impI)
  assume "skips_auth dec r"
  then show "auth_gate dec token r = Forward (after_raw_check dec r)" by (rule auth_gate_skip)
next
  assume n: "\<not> skips_auth dec r"
  show "if Header_Get (Header r) ''Authorization'' = ''Bearer '' @ token
         then auth_gate dec token r = Forward (after_raw_check dec r)
         else \<exists>resp. auth_gate dec token r = Deny resp \<and> status resp = 401
                \<and> (\<forall>next. AuthMiddleware dec token next r = resp)"
  proof (cases "Header_Get (Header r) ''Authorization'' = ''Bearer '' @ token")
    case True
    then show ?thesis using auth_gate_bearer[OF n] by simp
  next
    case False
    from auth_gate_denied[OF n False] obtain resp where
      "auth_gate dec token r = Deny resp" "status resp = 401" by blast
    then show ?thesis using False by (simp add: AuthMiddleware_def)
  qed
next
  assume "\<not> broken (Body r)"
  then show "after_raw_check dec r = r" by (rule after_raw_check_intact)
qed

text \<open>
  The amended claim C1 at three requests with token \<^verbatim>\<open>secret\<close>: a raw \<^verbatim>\<open>POST /message\<close>
  without a header is forwarded as it came, \<^verbatim>\<open>GET /messages\<close> with the right bearer is
  forwarded as it came, and \<^verbatim>\<open>GET /messages\<close> with a wrong bearer gets the 401 response
  \<^verbatim>\<open>Invalid token\<close> whatever the inner handler is.
\<close>

theorem auth_gate_exempt_or_bearer_witness:
  "auth_gate example_unmarshal ''secret''
     \<lparr>Method = ''POST'', Path = ''/message'', Header = Map.empty,
      Body = NewBuffer (''{'' @ [CHR 0x22] @ ''type'' @ [CHR 0x22] @ '':''
                        @ [CHR 0x22] @ ''raw'' @ [CHR 0x22] @ ''}'')\<rparr>
   = Forward
       \<lparr>Method = ''POST'', Path = ''/message'', Header = Map.empty,
        Body = NewBuffer (''{'' @ [CHR 0x22] @ ''type'' @ [CHR 0x22] @ '':''
                          @ [CHR 0x22] @ ''raw'' @ [CHR 0x22] @ ''}'')\<rparr>
   \<and> auth_gate example_unmarshal ''secret''
       \<lparr>Method = ''GET'', Path = ''/messages'',
        Header = [''Authorization'' \<mapsto> [''Bearer secret'']], Body = NewBuffer []\<rparr>
     = Forward
         \<lparr>Method = ''GET'', Path = ''/messages'',
          Header = [''Authorization'' \<mapsto> [''Bearer secret'']], Body = NewBuffer []\<rparr>
   \<and> AuthMiddleware example_unmarshal ''secret'' (statusHandler stable)
       \<lparr>Method = ''GET'', Path = ''/messages'',
        Header = [''Authorization'' \<mapsto> [''Bearer guess'']], Body = NewBuffer []\<rparr>
     = http_Error [] ''Invalid token'' 401"
proof -
  let ?raw = "\<lparr>Method = ''POST'', Path = ''/message'', Header = Map.empty,
      Body = NewBuffer (''{'' @ [CHR 0x22] @ ''type'' @ [CHR 0x22] @ '':''
                        @ [CHR 0x22] @ ''raw'' @ [CHR 0x22] @ ''}'')\<rparr>"
  let ?good = "\<lparr>Method = ''GET'', Path = ''/messages'',
        Header = [''Authorization'' \<mapsto> [''Bearer secret'']], Body = NewBuffer []\<rparr>"
  let ?bad = "\<lparr>Method = ''GET'', Path = ''/messages'',
        Header = [''Authorization'' \<mapsto> [''Bearer guess'']], Body = NewBuffer []\<rparr>"
  have s1: "skips_auth example_unmarshal ?raw"
    by (simp add: skips_auth_def isRawMessage_def ReadAll_def NewBuffer_def example_unmarshal_def)
  have s2: "\<not> skips_auth example_unmarshal ?good"
    by (simp add: skips_auth_def HasPrefix_def)
  have s3: "\<not> skips_auth example_unmarshal ?bad"
    by (simp add: skips_auth_def HasPrefix_def)
  have b1: "\<not> broken (Body ?raw)" and b2: "\<not> broken (Body ?good)"
    by (simp_all add: NewBuffer_def)
  have h2: "Header_Get (Header ?good) ''Authorization'' = ''Bearer '' @ ''secret''"
    by (simp add: Header_Get_def)
  have h3: "Header_Get (Header ?bad) ''Authorization'' \<noteq> ''Bearer '' @ ''secret''"
    by (simp add: Header_Get_def)
  have a: "auth_gate example_unmarshal ''secret'' ?raw = Forward ?raw"
    using auth_gate_exempt_or_bearer [of example_unmarshal ?raw "''secret''"] s1 b1 by simp
  have b: "auth_gate example_unmarshal ''secret'' ?good = Forward ?good"
    using auth_gate_exempt_or_bearer [of example_unmarshal ?good "''secret''"] s2 b2 h2 by simp
  from auth_gate_exempt_or_bearer [of example_unmarshal ?bad "''secret''"] s3 h3
  obtain resp where
    d: "auth_gate example_unmarshal ''secret'' ?bad = Deny resp"
    and m: "AuthMiddleware example_unmarshal ''secret'' (statusHandler stable) ?bad = resp"
    by auto
  have "auth_gate example_unmarshal ''secret'' ?bad = Deny (http_Error [] ''Invalid token'' 401)"
    by (simp add: auth_gate_def HasPrefix_def Header_Get_def StatusUnauthorized_def)
  with d m have c: "AuthMiddleware example_unmarshal ''secret'' (statusHandler stable) ?bad
                      = http_Error [] ''Invalid token'' 401" by simp
  show ?thesis using a b c by blast
qed

subsection \<open>Paths under /internal/\<close>

text \<open>
  Claim C4: two requests whose path begins with \<^verbatim>\<open>/internal/\<close> and that differ only in
  their Authorization header are treated alike: each is forwarded to the inner handler
  unchanged, no token is compared, and the response is the inner handler's.
\<close>

theorem internal_paths_ignore_authorization:
  assumes "HasPrefix (Path r1) ''/internal/''"
    and "r2 = r1\<lparr>Header := (Header r1)(''Authorization'' := a)\<rparr>"
  shows "auth_gate dec token r1 = Forward r1 \<and> auth_gate dec token r2 = Forward r2
         \<and> AuthMiddleware dec token next r1 = next r1
         \<and> AuthMiddleware dec token next r2 = next r2"
  using assms by (simp add: auth_gate_def AuthMiddleware_def)

text \<open>
  Claim C4 at \<^verbatim>\<open>GET /internal/state\<close>, once without an Authorization header and once with
  a wrong bearer token.
\<close>

theorem internal_paths_ignore_authorization_witness:
  "HasPrefix ''/internal/state'' ''/internal/''
   \<and> auth_gate example_unmarshal ''secret''
        \<lparr>Method = ''GET'', Path = ''/internal/state'', Header = Map.empty, Body = NewBuffer []\<rparr>
      = Forward \<lparr>Method = ''GET'', Path = ''/internal/state'', Header = Map.empty,
                 Body = NewBuffer []\<rparr>
   \<and> auth_gate example_unmarshal ''secret''
        \<lparr>Method = ''GET'', Path = ''/internal/state'',
         Header = [''Authorization'' \<mapsto> [''Bearer guess'']], Body = NewBuffer []\<rparr>
      = Forward \<lparr>Method = ''GET'', Path = ''/internal/state'',
                 Header = [''Authorization'' \<mapsto> [''Bearer guess'']], Body = NewBuffer []\<rparr>"
  using internal_paths_ignore_authorization
          [of "\<lparr>Method = ''GET'', Path = ''/internal/state'', Header = Map.empty,
                Body = NewBuffer []\<rparr>"
              "\<lparr>Method = ''GET'', Path = ''/internal/state'',
                Header = [''Authorization'' \<mapsto> [''Bearer guess'']], Body = NewBuffer []\<rparr>"
              "Some [''Bearer guess'']" example_unmarshal "''secret''"]
  by (simp add: HasPrefix_def)

subsection \<open>The body after the raw-type check\<close>

text \<open>
  Claim C8 says that the raw-type check classifies a \<^verbatim>\<open>POST /message\<close> as exempt exactly
  when its body is JSON of type raw (\<open>isRawMessage_fst\<close>), and that the body the inner
  handler sees afterwards is byte-identical to the original. The second part holds when
  the body could be read (\<open>isRawMessage_intact\<close>). When the read fails,
  \<^verbatim>\<open>isRawMessage\<close> returns before the statement that restores the body: a
  \<^verbatim>\<open>POST /message\<close> with a valid bearer token whose body breaks off after the four bytes
  \<^verbatim>\<open>{"ty\<close> is forwarded with a body from which these bytes are gone.
\<close>

theorem isRawMessage_read_error_loses_body:
  "auth_gate example_unmarshal ''secret''
     \<lparr>Method = ''POST'', Path = ''/message'',
      Header = [''Authorization'' \<mapsto> [''Bearer secret'']],
      Body = \<lparr>pending = ''{'' @ [CHR 0x22] @ ''ty'', broken = True\<rparr>\<rparr>
   = Forward
       \<lparr>Method = ''POST'', Path = ''/message'',
        Header = [''Authorization'' \<mapsto> [''Bearer secret'']],
        Body = \<lparr>pending = [], broken = True\<rparr>\<rparr>"
  by (simp add: auth_gate_def HasPrefix_def isRawMessage_def ReadAll_def Header_Get_def)

subsection \<open>The status endpoint behind the middleware\<close>

text \<open>
  Claim C2 says that \<^verbatim>\<open>GET /status\<close> never produces an error response. Behind the
  middleware it does: without an Authorization header the response is 401.
\<close>

theorem status_without_token_counterexample:
  "status (AuthMiddleware example_unmarshal ''secret'' (statusHandler stable)
             \<lparr>Method = ''GET'', Path = ''/status'', Header = Map.empty, Body = NewBuffer []\<rparr>)
   = 401"
  by (simp add: AuthMiddleware_def auth_gate_def HasPrefix_def Header_Get_def http_Error_def
        StatusUnauthorized_def)

text \<open>
  Claim C2, amended: a \<^verbatim>\<open>GET /status\<close> request whose Authorization header is
  \<^verbatim>\<open>Bearer \<close> followed by the configured token reaches the status handler, which answers
  200 with the current status as a small JSON object; any other \<^verbatim>\<open>GET /status\<close> request
  is answered 401 by the middleware.
\<close>

theorem status_endpoint_behind_bearer:
  assumes "Method r = ''GET''" and "Path r = ''/status''"
  shows "if Header_Get (Header r) ''Authorization'' = ''Bearer '' @ token
         then AuthMiddleware dec token (statusHandler st) r = statusHandler st r
              \<and> status (statusHandler st r) = 200
              \<and> resp_body (statusHandler st r)
                  = ''{'' @ [CHR 0x22] @ ''status'' @ [CHR 0x22] @ '':''
                    @ [CHR 0x22] @ status_name st @ [CHR 0x22] @ ''}''
         else status (AuthMiddleware dec token (statusHandler st) r) = 401"
proof (cases "Header_Get (Header r) ''Authorization'' = ''Bearer '' @ token")
  case True
  have "auth_gate dec token r = Forward (after_raw_check dec r)"
    using auth_gate_bearer[OF status_not_skipped[OF assms(2)] True] .
  then show ?thesis using True
    by (simp add: AuthMiddleware_def statusHandler_def StatusOK_def)
next
  case False
  from auth_gate_denied[OF status_not_skipped[OF assms(2)] False]
  obtain resp where "auth_gate dec token r = Deny resp" "status resp = 401" by blast
  then show ?thesis using False by (simp add: AuthMiddleware_def)
qed

text \<open>
  The amended claim C2 at a \<^verbatim>\<open>GET /status\<close> with the right bearer token while the agent
  is stable.
\<close>

theorem status_endpoint_behind_bearer_witness:
  "AuthMiddleware example_unmarshal ''secret'' (statusHandler stable)
     \<lparr>Method = ''GET'', Path = ''/status'',
      Header = [''Authorization'' \<mapsto> [''Bearer secret'']], Body = NewBuffer []\<rparr>
   = \<lparr>status = 200, resp_header = [(''Content-Type'', ''application/json'')],
      resp_body = ''{'' @ [CHR 0x22] @ ''status'' @ [CHR 0x22] @ '':''
                    @ [CHR 0x22] @ ''stable'' @ [CHR 0x22] @ ''}''\<rparr>"
  using status_endpoint_behind_bearer
          [of "\<lparr>Method = ''GET'', Path = ''/status'',
                Header = [''Authorization'' \<mapsto> [''Bearer secret'']], Body = NewBuffer []\<rparr>"
              "''secret''" example_unmarshal stable]
  by (simp add: Header_Get_def statusHandler_def StatusOK_def status_name_def)

section \<open>Properties of the Screen Tracker\<close>

lemma texts_equal_iff:
  "texts_equal ss \<longleftrightarrow> (\<forall>a\<in>set ss. \<forall>b\<in>set ss. screen_text a = screen_text b)"
proof (cases ss)
  case Nil
  then show ?thesis by (simp add: texts_equal_def)
next
  case (Cons s rest)
  have "texts_equal ss \<longleftrightarrow> (\<forall>a\<in>set ss. screen_text a = screen_text s)"
    by (simp add: Cons texts_equal_def list_all_iff)
  moreover have "(\<forall>a\<in>set ss. screen_text a = screen_text s)
                   \<longleftrightarrow> (\<forall>a\<in>set ss. \<forall>b\<in>set ss. screen_text a = screen_text b)"
  proof
    assume h: "\<forall>a\<in>set ss. screen_text a = screen_text s"
    show "\<forall>a\<in>set ss. \<forall>b\<in>set ss. screen_text a = screen_text b"
    proof (intro ballI)
      fix a b assume "a \<in> set ss" "b \<in> set ss"
      then have "screen_text a = screen_text s" "screen_text b = screen_text s"
        using h by blast+
      then show "screen_text a = screen_text b" by simp
    qed
  next
    assume h: "\<forall>a\<in>set ss. \<forall>b\<in>set ss. screen_text a = screen_text b"
    have "s \<in> set ss" by (simp add: Cons)
    then show "\<forall>a\<in>set ss. screen_text a = screen_text s" using h by blast
  qed
  ultimately show ?thesis by blast
qed

lemma tick_terminated: "tstatus tr = terminated \<Longrightarrow> tick cfg tr inp = tr"
  by (cases inp) (auto simp: tick_def)

lemma ticks_terminated: "tstatus tr = terminated \<Longrightarrow> ticks cfg tr inps = tr"
  unfolding ticks_def by (induction inps arbitrary: tr) (simp_all add: tick_terminated)

lemma tick_live:
  "tstatus tr \<noteq> terminated \<Longrightarrow>
   tstatus (tick cfg tr (now, (scr, row, col), exited))
     = classify cfg (now - started tr) (history (tick cfg tr (now, (scr, row, col), exited))) exited"
  by (simp add: tick_def Let_def)

lemma classify_quiet:
  "\<not> exited \<Longrightarrow> e < startup_quiet cfg \<Longrightarrow> classify cfg e h exited = initializing"
  by (simp add: classify_def)

lemma classify_exited: "classify cfg e h True = terminated"
  by (simp add: classify_def)

lemma classify_window:
  assumes "\<not> exited" and "\<not> e < startup_quiet cfg"
  shows "(classify cfg e h exited = stable \<longleftrightarrow>
            window_samples cfg \<le> length h
            \<and> (\<forall>a\<in>set (take (window_samples cfg) h).
                 \<forall>b\<in>set (take (window_samples cfg) h). screen_text a = screen_text b))
         \<and> (classify cfg e h exited \<noteq> stable \<longrightarrow> classify cfg e h exited = changing)"
proof -
  define P where "P = (\<forall>a\<in>set (take (window_samples cfg) h).
                 \<forall>b\<in>set (take (window_samples cfg) h). screen_text a = screen_text b)"
  have PE: "texts_equal (take (window_samples cfg) h) = P"
    unfolding P_def by (rule texts_equal_iff)
  have eq: "classify cfg e h exited =
          (if window_samples cfg \<le> length h \<and> P then stable else changing)"
    unfolding classify_def PE using assms by (simp only: if_False)
  have "(classify cfg e h exited = stable \<longleftrightarrow> window_samples cfg \<le> length h \<and> P)
         \<and> (classify cfg e h exited \<noteq> stable \<longrightarrow> classify cfg e h exited = changing)"
    unfolding eq by (cases "window_samples cfg \<le> length h \<and> P") simp_all
  then show ?thesis unfolding P_def .
qed

text \<open>
  Claim C5, for one tick of a tracker: while the child is alive, a tick whose elapsed
  time since process start is below the startup quiet window gives \<open>initializing\<close>; a
  later tick gives \<open>stable\<close> if and only if the ring holds the N samples of the stability
  window and their texts are all equal, and \<open>changing\<close> otherwise; a tick that finds the
  child exited gives \<open>terminated\<close>, and from then on every sequence of ticks leaves the
  status \<open>terminated\<close>. The exit takes precedence over the quiet window, as the claim's
  last clause asks.
\<close>

theorem tick_classification:
  assumes "tr' = tick cfg tr (now, (scr, row, col), exited)"
  shows "(tstatus tr \<noteq> terminated \<and> \<not> exited \<and> now - started tr < startup_quiet cfg
            \<longrightarrow> tstatus tr' = initializing)
       \<and> (tstatus tr \<noteq> terminated \<and> \<not> exited \<and> \<not> now - started tr < startup_quiet cfg
            \<longrightarrow> (tstatus tr' = stable \<longleftrightarrow>
                   window_samples cfg \<le> length (history tr')
                   \<and> (\<forall>a\<in>set (take (window_samples cfg) (history tr')).
                        \<forall>b\<in>set (take (window_samples cfg) (history tr')).
                          screen_text a = screen_text b))
                \<and> (tstatus tr' \<noteq> stable \<longrightarrow> tstatus tr' = changing))
       \<and> (exited \<longrightarrow> tstatus tr' = terminated)
       \<and> (tstatus tr = terminated \<or> exited \<longrightarrow> tstatus (ticks cfg tr' inps) = terminated)"
proof -
  have dead: "tstatus tr = terminated \<Longrightarrow> tstatus tr' = terminated"
    using assms by (simp add: tick_terminated)
  have live: "tstatus tr \<noteq> terminated \<Longrightarrow>
              tstatus tr' = classify cfg (now - started tr) (history tr') exited"
    using assms tick_live by simp
  have ex: "exited \<longrightarrow> tstatus tr' = terminated"
  proof
    assume e: exited
    show "tstatus tr' = terminated"
    proof (cases "tstatus tr = terminated")
      case True
      then show ?thesis by (rule dead)
    next
      case False
      from live[OF False] e show ?thesis by (simp only: classify_exited)
    qed
  qed
  have c1: "tstatus tr \<noteq> terminated \<and> \<not> exited \<and> now - started tr < startup_quiet cfg
            \<longrightarrow> tstatus tr' = initializing"
  proof
    assume h: "tstatus tr \<noteq> terminated \<and> \<not> exited \<and> now - started tr < startup_quiet cfg"
    then have "tstatus tr' = classify cfg (now - started tr) (history tr') exited"
      using live by blast
    also have "\<dots> = initializing" using h classify_quiet by blast
    finally show "tstatus tr' = initializing" .
  qed
  have c2: "tstatus tr \<noteq> terminated \<and> \<not> exited \<and> \<not> now - started tr < startup_quiet cfg
            \<longrightarrow> (tstatus tr' = stable \<longleftrightarrow>
                   window_samples cfg \<le> length (history tr')
                   \<and> (\<forall>a\<in>set (take (window_samples cfg) (history tr')).
                        \<forall>b\<in>set (take (window_samples cfg) (history tr')).
                          screen_text a = screen_text b))
                \<and> (tstatus tr' \<noteq> stable \<longrightarrow> tstatus tr' = changing)"
  proof
    assume h: "tstatus tr \<noteq> terminated \<and> \<not> exited \<and> \<not> now - started tr < startup_quiet cfg"
    then have eq: "tstatus tr' = classify cfg (now - started tr) (history tr') exited"
      using live by blast
    from h have "\<not> exited" "\<not> now - started tr < startup_quiet cfg" by blast+
    from classify_window[OF this, of "history tr'"]
    show "(tstatus tr' = stable \<longleftrightarrow>
                   window_samples cfg \<le> length (history tr')
                   \<and> (\<forall>a\<in>set (take (window_samples cfg) (history tr')).
                        \<forall>b\<in>set (take (window_samples cfg) (history tr')).
                          screen_text a = screen_text b))
                \<and> (tstatus tr' \<noteq> stable \<longrightarrow> tstatus tr' = changing)"
      unfolding eq .
  qed
  have c4: "tstatus tr = terminated \<or> exited \<longrightarrow> tstatus (ticks cfg tr' inps) = terminated"
  proof
    assume "tstatus tr = terminated \<or> exited"
    then have "tstatus tr' = terminated" using dead ex by blast
    then show "tstatus (ticks cfg tr' inps) = terminated"
      by (simp add: ticks_terminated)
  qed
  show ?thesis by (intro conjI c1 c2 ex c4)
qed

text \<open>
  Claim C5 at a sampling period of 25 ms, a window of 50 ms (two samples) and a quiet
  window of 1 s: a tick at 25 ms is \<open>initializing\<close>, a tick at 1025 ms that repeats the
  text of the sample before is \<open>stable\<close>, and after a tick that saw the child exited a
  further tick leaves \<open>terminated\<close>.
\<close>

theorem tick_classification_witness:
  "tstatus (tick \<lparr>sampling_period = 25, stability_window = 50, startup_quiet = 1000, ring_margin = 2\<rparr>
             \<lparr>started = 0, history = [], tstatus = initializing\<rparr>
             (25, (''$ '', 0, 2), False)) = initializing
   \<and> tstatus (tick \<lparr>sampling_period = 25, stability_window = 50, startup_quiet = 1000, ring_margin = 2\<rparr>
             \<lparr>started = 0,
              history = [\<lparr>timestamp = 1000, screen_text = ''done'', cursor_row = 0, cursor_col = 4\<rparr>],
              tstatus = changing\<rparr>
             (1025, (''done'', 2, 0), False)) = stable
   \<and> tstatus (ticks \<lparr>sampling_period = 25, stability_window = 50, startup_quiet = 1000, ring_margin = 2\<rparr>
             (tick \<lparr>sampling_period = 25, stability_window = 50, startup_quiet = 1000, ring_margin = 2\<rparr>
                \<lparr>started = 0, history = [], tstatus = initializing\<rparr>
                (25, (''$ '', 0, 2), True))
             [(50, (''$ x'', 0, 3), False)]) = terminated"
proof -
  let ?cfg = "\<lparr>sampling_period = 25, stability_window = 50, startup_quiet = 1000, ring_margin = 2\<rparr>"
  let ?t0 = "\<lparr>started = 0, history = [], tstatus = initializing\<rparr>"
  let ?t1 = "\<lparr>started = 0,
              history = [\<lparr>timestamp = 1000, screen_text = ''done'', cursor_row = 0, cursor_col = 4\<rparr>],
              tstatus = changing\<rparr>"
  have a: "tstatus (tick ?cfg ?t0 (25, (''$ '', 0, 2), False)) = initializing"
    using tick_classification [OF refl, where cfg = "?cfg" and tr = "?t0" and now = 25
            and scr = "''$ ''" and row = 0 and col = 2 and exited = False]
    by simp
  have h: "history (tick ?cfg ?t1 (1025, (''done'', 2, 0), False))
             = [\<lparr>timestamp = 1025, screen_text = ''done'', cursor_row = 2, cursor_col = 0\<rparr>,
                \<lparr>timestamp = 1000, screen_text = ''done'', cursor_row = 0, cursor_col = 4\<rparr>]"
    by (simp add: tick_def ring_capacity_def window_samples_def Let_def)
  have b: "tstatus (tick ?cfg ?t1 (1025, (''done'', 2, 0), False)) = stable"
    using tick_classification [OF refl, where cfg = "?cfg" and tr = "?t1" and now = 1025
            and scr = "''done''" and row = 2 and col = 0 and exited = False]
    by (simp add: h window_samples_def)
  have c: "tstatus (ticks ?cfg (tick ?cfg ?t0 (25, (''$ '', 0, 2), True))
             [(50, (''$ x'', 0, 3), False)]) = terminated"
    using tick_classification [OF refl, where cfg = "?cfg" and tr = "?t0" and now = 25
            and scr = "''$ ''" and row = 0 and col = 2 and exited = True
            and inps = "[(50, (''$ x'', 0, 3), False)]"]
    by simp
  show ?thesis using a b c by blast
qed

section \<open>Properties of the Message Segmenter\<close>

lemma seg_inv_init: "seg_inv Segmenter_init"
  by (simp add: seg_inv_def Segmenter_init_def transcript_def)

lemma seg_inv_step: "seg_inv s \<Longrightarrow> seg_inv (seg_step fmt s ev)"
  by (cases ev) (auto simp: seg_inv_def submit_def on_stable_def transcript_def less_Suc_eq
        split: MessageType.splits option.splits)

lemma seg_inv_run: "seg_inv s \<Longrightarrow> seg_inv (seg_run fmt s evs)"
  unfolding seg_run_def by (induction evs arbitrary: s) (simp_all add: seg_inv_step)

lemma users_step:
  "seg_inv s \<Longrightarrow>
   map content (filter (\<lambda>m. role m = User) (transcript (seg_step fmt s ev)))
     = map content (filter (\<lambda>m. role m = User) (transcript s)) @ user_submissions [ev]"
  by (cases ev) (auto simp: seg_inv_def submit_def on_stable_def transcript_def
        split: MessageType.splits option.splits)

lemma user_submissions_append:
  "user_submissions (xs @ ys) = user_submissions xs @ user_submissions ys"
  by (induction xs rule: user_submissions.induct) simp_all

lemma users_run:
  "seg_inv s \<Longrightarrow>
   map content (filter (\<lambda>m. role m = User) (transcript (seg_run fmt s evs)))
     = map content (filter (\<lambda>m. role m = User) (transcript s)) @ user_submissions evs"
proof (induction evs arbitrary: s)
  case Nil
  then show ?case by (simp add: seg_run_def)
next
  case (Cons ev evs)
  have "seg_run fmt s (ev # evs) = seg_run fmt (seg_step fmt s ev) evs"
    by (simp add: seg_run_def)
  moreover have "user_submissions (ev # evs) = user_submissions [ev] @ user_submissions evs"
    using user_submissions_append[of "[ev]" evs] by simp
  ultimately show ?case
    using Cons.IH[OF seg_inv_step[OF Cons.prems]] users_step[OF Cons.prems] by simp
qed

lemma ids_step:
  "map msg_id (transcript (seg_step fmt s ev))
     = map msg_id (transcript s) @ (if begins_turn s ev then [next_id s] else [])"
  by (cases ev) (auto simp: submit_def on_stable_def transcript_def
        split: MessageType.splits option.splits)

lemma ids_run:
  "prefix (map msg_id (transcript s)) (map msg_id (transcript (seg_run fmt s evs)))"
proof (induction evs arbitrary: s)
  case Nil
  then show ?case by (simp add: seg_run_def)
next
  case (Cons ev evs)
  have "prefix (map msg_id (transcript s)) (map msg_id (transcript (seg_step fmt s ev)))"
    by (simp add: ids_step)
  moreover have "seg_run fmt s (ev # evs) = seg_run fmt (seg_step fmt s ev) evs"
    by (simp add: seg_run_def)
  ultimately show ?case using Cons.IH[of "seg_step fmt s ev"] prefix_order.trans by metis
qed

text \<open>
  Claim C6: after any sequence of events from the empty segmenter, the contents of the
  messages with role user in the transcript are exactly the contents of the user
  submissions, in submission order (so N submissions give N user messages); and a user
  submission appends one user message at the end of the transcript at once, with the
  submitted content and an id that no message of the transcript carries.
\<close>

theorem user_submissions_in_transcript:
  "map content (filter (\<lambda>m. role m = User) (transcript (seg_run fmt Segmenter_init evs)))
     = user_submissions evs
   \<and> length (filter (\<lambda>m. role m = User) (transcript (seg_run fmt Segmenter_init evs)))
     = length (user_submissions evs)
   \<and> transcript (submit (seg_run fmt Segmenter_init evs) TypeUser c t)
     = transcript (seg_run fmt Segmenter_init evs)
       @ [\<lparr>msg_id = next_id (seg_run fmt Segmenter_init evs), role = User,
           content = c, msg_time = t\<rparr>]
   \<and> next_id (seg_run fmt Segmenter_init evs)
       \<notin> msg_id ` set (transcript (seg_run fmt Segmenter_init evs))"
proof -
  let ?s = "seg_run fmt Segmenter_init evs"
  have inv: "seg_inv ?s" by (rule seg_inv_run[OF seg_inv_init])
  have a: "map content (filter (\<lambda>m. role m = User) (transcript ?s)) = user_submissions evs"
    using users_run[OF seg_inv_init, of fmt evs]
    by (simp add: Segmenter_init_def transcript_def)
  have b: "length (filter (\<lambda>m. role m = User) (transcript ?s)) = length (user_submissions evs)"
    using arg_cong[OF a, of length] by simp
  have c: "transcript (submit ?s TypeUser c t)
     = transcript ?s @ [\<lparr>msg_id = next_id ?s, role = User, content = c, msg_time = t\<rparr>]"
    by (simp add: submit_def transcript_def)
  have d: "next_id ?s \<notin> msg_id ` set (transcript ?s)"
    using inv by (auto simp: seg_inv_def)
  show ?thesis using a b c d by blast
qed

text \<open>
  Claim C7: a stable event that finds an open agent tail replaces the content of the
  tail and leaves its id, role and time, the sealed messages and the id counter as they
  are; an event that does not begin a turn leaves the ids of the transcript unchanged; an
  event that begins a turn appends exactly one new id; and over any sequence of events
  the ids already in the transcript stay where they are.
\<close>

theorem message_ids_stable:
  "(tail s = Some m \<longrightarrow>
      transcript (on_stable fmt s snap t) = sealed s @ [m\<lparr>content := fmt snap\<rparr>]
      \<and> transcript s = sealed s @ [m]
      \<and> next_id (on_stable fmt s snap t) = next_id s)
   \<and> (\<not> begins_turn s ev \<longrightarrow>
        map msg_id (transcript (seg_step fmt s ev)) = map msg_id (transcript s))
   \<and> (begins_turn s ev \<longrightarrow>
        map msg_id (transcript (seg_step fmt s ev)) = map msg_id (transcript s) @ [next_id s])
   \<and> prefix (map msg_id (transcript s)) (map msg_id (transcript (seg_run fmt s evs)))"
proof -
  have a: "tail s = Some m \<longrightarrow>
      transcript (on_stable fmt s snap t) = sealed s @ [m\<lparr>content := fmt snap\<rparr>]
      \<and> transcript s = sealed s @ [m]
      \<and> next_id (on_stable fmt s snap t) = next_id s"
    by (simp add: on_stable_def transcript_def)
  show ?thesis using a ids_step[of fmt s ev] ids_run[of s fmt evs] by simp
qed

text \<open>
  Claim C7 on a run: a user message, then two stable snapshots of the agent's reply. The
  reply keeps id 1 while its content goes from \<^verbatim>\<open>thinking\<close> to \<^verbatim>\<open>done.\<close>
\<close>

theorem message_ids_stable_witness:
  "map msg_id (transcript (seg_run (\<lambda>x. x) Segmenter_init
      [Submission TypeUser ''hello'' 1, StableSnapshot ''thinking'' 2])) = [0, 1]
   \<and> transcript (seg_run (\<lambda>x. x) Segmenter_init
      [Submission TypeUser ''hello'' 1, StableSnapshot ''thinking'' 2, StableSnapshot ''done.'' 3])
     = [\<lparr>msg_id = 0, role = User, content = ''hello'', msg_time = 1\<rparr>,
        \<lparr>msg_id = 1, role = Agent, content = ''done.'', msg_time = 2\<rparr>]"
  using message_ids_stable [of
          "seg_run (\<lambda>x. x) Segmenter_init
             [Submission TypeUser ''hello'' 1, StableSnapshot ''thinking'' 2]"
          "\<lparr>msg_id = 1, role = Agent, content = ''thinking'', msg_time = 2\<rparr>"
          "\<lambda>x. x" "''done.''" 3 "StableSnapshot ''done.'' 3" "[]"]
  by (simp add: seg_run_def Segmenter_init_def submit_def on_stable_def transcript_def)

section \<open>Properties of the quickstart command\<close>

lemma runQuickstart_success:
  assumes "claude_in_path env" "process_started env" "providers_found env"
    "tunnel_established env" "registration_ok env"
  shows "runQuickstart env =
     [GenerateSession, LookPath, StartProcess, SleepClaudeInit, NewServerWithAuth,
      GoServerStart, SleepServerStart, CheckAvailableProviders, EstablishTunnel,
      RegisterWithCoordinator, DisplayConnectionInfo, StartSnapshotLoop,
      AwaitInterrupt, ServerStop, CancelCtx, ProcessClose, CancelCtx]"
  using assms by (simp add: runQuickstart_def startClaudeCode_def waitForInterrupt_def)

lemma runQuickstart_failure:
  assumes "\<not> (claude_in_path env \<and> process_started env \<and> providers_found env
              \<and> tunnel_established env \<and> registration_ok env)"
  shows "StartSnapshotLoop \<notin> set (runQuickstart env)
         \<and> ProcessClose \<notin> set (runQuickstart env)
         \<and> last (runQuickstart env) = OsExit"
  using assms by (auto simp: runQuickstart_def startClaudeCode_def waitForInterrupt_def)

text \<open>
  Claim C3 says that the snapshot loop is started at server start, so that the HTTP server
  never serves while the loop has not been started. In \<^verbatim>\<open>runQuickstart\<close> the server
  goroutine is launched in step 3 and the loop is started in step 8: on the run where
  every step succeeds, the server is launched before the loop has been started.
\<close>

theorem server_launched_before_snapshot_loop_counterexample:
  "\<not> guarded_by StartSnapshotLoop GoServerStart (runQuickstart all_succeed)"
  by (simp add: runQuickstart_def startClaudeCode_def all_succeed_def waitForInterrupt_def)

text \<open>
  Claim C3, amended: in every execution of quickstart the snapshot loop is started only
  after the server goroutine has been launched, and it is started exactly when Claude
  Code, the tunnel providers, the tunnel and the registration all succeed (a run that
  fails earlier exits without ever starting it). On a run that starts the loop, shutdown
  stops the server and cancels the context of the loop before the PTY process is closed,
  and nothing cancels the context before the loop has been started.
\<close>

theorem snapshot_loop_after_server_launch:
  "guarded_by GoServerStart StartSnapshotLoop (runQuickstart env)
   \<and> guarded_by CancelCtx ProcessClose (runQuickstart env)
   \<and> guarded_by StartSnapshotLoop CancelCtx (runQuickstart env)
   \<and> (StartSnapshotLoop \<in> set (runQuickstart env) \<longleftrightarrow>
        claude_in_path env \<and> process_started env \<and> providers_found env
        \<and> tunnel_established env \<and> registration_ok env)
   \<and> (StartSnapshotLoop \<in> set (runQuickstart env) \<longrightarrow>
        (\<exists>pre. runQuickstart env =
           pre @ [StartSnapshotLoop, AwaitInterrupt, ServerStop, CancelCtx, ProcessClose, CancelCtx]
           \<and> GoServerStart \<in> set pre \<and> CancelCtx \<notin> set pre \<and> ProcessClose \<notin> set pre))"
proof (cases "claude_in_path env \<and> process_started env \<and> providers_found env
              \<and> tunnel_established env \<and> registration_ok env")
  case True
  then have eq: "runQuickstart env =
     [GenerateSession, LookPath, StartProcess, SleepClaudeInit, NewServerWithAuth,
      GoServerStart, SleepServerStart, CheckAvailableProviders, EstablishTunnel,
      RegisterWithCoordinator, DisplayConnectionInfo]
     @ [StartSnapshotLoop, AwaitInterrupt, ServerStop, CancelCtx, ProcessClose, CancelCtx]"
    using runQuickstart_success[of env] by simp
  have "\<exists>pre. runQuickstart env =
           pre @ [StartSnapshotLoop, AwaitInterrupt, ServerStop, CancelCtx, ProcessClose, CancelCtx]
           \<and> GoServerStart \<in> set pre \<and> CancelCtx \<notin> set pre \<and> ProcessClose \<notin> set pre"
    by (rule exI[of _ "[GenerateSession, LookPath, StartProcess, SleepClaudeInit,
      NewServerWithAuth, GoServerStart, SleepServerStart, CheckAvailableProviders,
      EstablishTunnel, RegisterWithCoordinator, DisplayConnectionInfo]"]) (simp add: eq)
  moreover have "guarded_by GoServerStart StartSnapshotLoop (runQuickstart env)"
    "guarded_by CancelCtx ProcessClose (runQuickstart env)"
    "guarded_by StartSnapshotLoop CancelCtx (runQuickstart env)"
    "StartSnapshotLoop \<in> set (runQuickstart env)"
    by (simp_all add: eq)
  ultimately show ?thesis using True by blast
next
  case False
  have g: "guarded_by GoServerStart StartSnapshotLoop (runQuickstart env)"
    "guarded_by CancelCtx ProcessClose (runQuickstart env)"
    "guarded_by StartSnapshotLoop CancelCtx (runQuickstart env)"
    using False by (auto simp: runQuickstart_def startClaudeCode_def waitForInterrupt_def)
  from runQuickstart_failure[OF False] g False show ?thesis by blast
qed

text \<open>
  The amended claim C3 on the run where every step succeeds.
\<close>

theorem snapshot_loop_after_server_launch_witness:
  "StartSnapshotLoop \<in> set (runQuickstart all_succeed)
   \<and> runQuickstart all_succeed =
       [GenerateSession, LookPath, StartProcess, SleepClaudeInit, NewServerWithAuth,
        GoServerStart, SleepServerStart, CheckAvailableProviders, EstablishTunnel,
        RegisterWithCoordinator, DisplayConnectionInfo]
       @ [StartSnapshotLoop, AwaitInterrupt, ServerStop, CancelCtx, ProcessClose, CancelCtx]"
  using snapshot_loop_after_server_launch [of all_succeed]
  by (simp add: all_succeed_def runQuickstart_def startClaudeCode_def waitForInterrupt_def)

section \<open>Properties of the coordinator client\<close>

lemma getEnvAny_agree:
  "list_all (\<lambda>n. Getenv env n = Getenv other n) ns \<Longrightarrow> getEnvAny env ns = getEnvAny other ns"
  by (induction ns) simp_all


lemma getCoordinatorURL_agree:
  "Getenv env ''COORDINATOR_URL'' = Getenv other ''COORDINATOR_URL''
   \<Longrightarrow> getCoordinatorURL env = getCoordinatorURL other"
  by (simp add: getCoordinatorURL_def)





section \<open>Properties of passcode generation\<close>

lemma length_passcodeChars: "length passcodeChars = 32"
  by (simp add: passcodeChars_def)

lemma fill_passcode_ok:
  "fill_passcode n src = Inr (p, src') \<Longrightarrow> length p = n \<and> set p \<subseteq> set passcodeChars"
proof (induction n arbitrary: src p src')
  case 0
  then show ?case by simp
next
  case (Suc n)
  from Suc.prems obtain k s1 cs where
    k: "k < length passcodeChars" and r: "fill_passcode n s1 = Inr (cs, src')"
    and p: "p = passcodeChars ! k # cs"
    by (auto split: sum.splits prod.splits if_splits)
  from Suc.IH[OF r] have "length cs = n" "set cs \<subseteq> set passcodeChars" by blast+
  with k p show ?case by (simp add: nth_mem)
qed

lemma fill_passcode_total:
  "n \<le> length src \<Longrightarrow> \<exists>p src'. fill_passcode n src = Inr (p, src')"
proof (induction n arbitrary: src)
  case 0
  then show ?case by simp
next
  case (Suc n)
  then obtain e rest where src: "src = e # rest" by (cases src) auto
  with Suc.prems have "n \<le> length rest" by simp
  from Suc.IH[OF this] obtain p src' where "fill_passcode n rest = Inr (p, src')" by blast
  then show ?case
    by (simp add: src randInt_def length_passcodeChars)
qed

text \<open>
  Claim C10: every string that \<^verbatim>\<open>generatePasscode\<close> returns has exactly 6 characters,
  each from the alphabet \<^verbatim>\<open>ABCDEFGHJKLMNPQRSTUVWXYZ23456789\<close>, so it passes the worker's
  regular expression and \<^verbatim>\<open>POST /register\<close> never rejects it for its format. And
  \<^verbatim>\<open>generatePasscode\<close> does return a string whenever the random source delivers its six
  draws.
\<close>

theorem generatePasscode_format:
  "(generatePasscode src = Inr (p, src') \<longrightarrow>
      length p = 6 \<and> (\<forall>c\<in>set p. c \<in> set ''ABCDEFGHJKLMNPQRSTUVWXYZ23456789'')
      \<and> passcodeRegex_test p
      \<and> register_check p tunnel_url token \<noteq> InvalidFormat)
   \<and> (6 \<le> length src \<longrightarrow> (\<exists>q rest. generatePasscode src = Inr (q, rest)))"
proof (intro conjI impI)
  assume g: "generatePasscode src = Inr (p, src')"
  then have "length p = 6" and sub: "set p \<subseteq> set passcodeChars"
    using fill_passcode_ok[of 6 src p src'] by (simp_all add: generatePasscode_def)
  moreover from sub have al: "\<forall>c\<in>set p. c \<in> set ''ABCDEFGHJKLMNPQRSTUVWXYZ23456789''"
    unfolding passcodeChars_def by blast
  moreover have "passcodeRegex_test p"
    unfolding passcodeRegex_test_def list_all_iff using \<open>length p = 6\<close> al by blast
  moreover from this have "register_check p tunnel_url token \<noteq> InvalidFormat"
    by (simp add: register_check_def)
  ultimately show "length p = 6" "\<forall>c\<in>set p. c \<in> set ''ABCDEFGHJKLMNPQRSTUVWXYZ23456789''"
    "passcodeRegex_test p" "register_check p tunnel_url token \<noteq> InvalidFormat"
    by blast+
next
  assume "6 \<le> length src"
  then show "\<exists>q rest. generatePasscode src = Inr (q, rest)"
    unfolding generatePasscode_def by (rule fill_passcode_total)
qed

text \<open>
  Claim C10 on the draws 0, 9, 2, 31, 4, 5.
\<close>

theorem generatePasscode_format_witness:
  "generatePasscode [0, 9, 2, 31, 4, 5] = Inr (''AKC9EF'', [])
   \<and> passcodeRegex_test ''AKC9EF''
   \<and> register_check ''AKC9EF'' ''https://abc.lhr.life'' ''tok'' = Registered"
proof -
  have g: "generatePasscode [0, 9, 2, 31, 4, 5] = Inr (''AKC9EF'', [])"
    by code_simp
  from generatePasscode_format [where src = "[0, 9, 2, 31, 4, 5]" and p = "''AKC9EF''"
          and src' = "[]" and tunnel_url = "''https://abc.lhr.life''" and token = "''tok''"] g
  have "passcodeRegex_test ''AKC9EF''" by blast
  then show ?thesis using g by (simp add: register_check_def)
qed

end
